theory Spec2Isabelle
  imports Complex_Main "HOL-Library.Sublist"
begin

section \<open>The ideas gallery: data model\<close>

text \<open>
  The component \<^verbatim>\<open>IdeasPlatform\<close> of \<^verbatim>\<open>src/components/IdeasTable.tsx\<close> fetches a
  list of ideas once, derives the category facets, filters by category and text, and
  shows one page of six ideas.

  A string is the list of the bytes of its UTF-8 encoding, so that equality and
  containment of well-formed strings are those of the code. Page numbers are JavaScript
  numbers that only ever hold integers: \<open>int\<close>.

  \<^verbatim>\<open>String.prototype.toLowerCase\<close> belongs to the JavaScript library and works from
  the Unicode tables, which the repository does not contain. Every definition that
  lower-cases takes it as its first argument \<open>toLowerCase\<close>, and the theorems hold for
  every such function.
\<close>

record Idea =
  idea_id :: string
  title :: string
  description :: string
  category :: "string list"
  prize :: real
  difficulty :: string

definition ITEMS_PER_PAGE :: nat where
  "ITEMS_PER_PAGE = 6"

record facet =
  facet_id :: string
  name :: string
  count :: nat

subsection \<open>JavaScript library functions used by the component\<close>

text \<open>\<^verbatim>\<open>String.prototype.includes\<close>: the argument occurs as a contiguous run.\<close>

fun includes_str :: "string \<Rightarrow> string \<Rightarrow> bool" where
  "includes_str [] q = (q = [])"
| "includes_str (c # s) q = (prefix q (c # s) \<or> includes_str s q)"

text \<open>\<^verbatim>\<open>Array.prototype.includes\<close> on an array of strings.\<close>

definition includes_arr :: "string list \<Rightarrow> string \<Rightarrow> bool" where
  "includes_arr xs x = (x \<in> set xs)"

text \<open>
  \<^verbatim>\<open>Array.from(new Set(xs))\<close>: a \<^verbatim>\<open>Set\<close> keeps its elements in insertion order, and
  adding an element it already holds changes nothing.
\<close>

fun set_add_all :: "'a list \<Rightarrow> 'a list \<Rightarrow> 'a list" where
  "set_add_all acc [] = acc"
| "set_add_all acc (x # xs) =
     set_add_all (if x \<in> set acc then acc else acc @ [x]) xs"

definition array_from_set :: "'a list \<Rightarrow> 'a list" where
  "array_from_set xs = set_add_all [] xs"

text \<open>
  \<^verbatim>\<open>Array.prototype.slice(start, end)\<close>: a negative index counts from the end, and both
  indices are clamped to the array.
\<close>

definition slice :: "'a list \<Rightarrow> int \<Rightarrow> int \<Rightarrow> 'a list" where
  "slice xs start stop =
     (let len = int (length xs);
          k = (if start < 0 then max (len + start) 0 else min start len);
          final = (if stop < 0 then max (len + stop) 0 else min stop len)
      in take (nat (final - k)) (drop (nat k) xs))"

section \<open>The derived values of a render\<close>

text \<open>
  Each is a function of the state variables its expression reads: \<open>ideas\<close>,
  \<open>activeCategory\<close>, \<open>searchQuery\<close>, \<open>currentPage\<close>.
\<close>

definition categories :: "Idea list \<Rightarrow> facet list" where
  "categories ideas =
     (let allCategories = concat (map category ideas);
          uniqueCategories = array_from_set allCategories
      in \<lparr>facet_id = ''all'', name = ''All'', count = length ideas\<rparr> #
         map (\<lambda>c. \<lparr>facet_id = c, name = c,
                    count = length (filter (\<lambda>idea. includes_arr (category idea) c) ideas)\<rparr>)
           uniqueCategories)"

definition matches :: "(string \<Rightarrow> string) \<Rightarrow> string \<Rightarrow> string \<Rightarrow> Idea \<Rightarrow> bool" where
  "matches toLowerCase activeCategory searchQuery idea =
     ((activeCategory = ''All'' \<or> includes_arr (category idea) activeCategory) \<and>
      (includes_str (toLowerCase (title idea)) (toLowerCase searchQuery) \<or>
       includes_str (toLowerCase (description idea)) (toLowerCase searchQuery)))"

definition filteredIdeas :: "(string \<Rightarrow> string) \<Rightarrow> Idea list \<Rightarrow> string \<Rightarrow> string \<Rightarrow> Idea list" where
  "filteredIdeas toLowerCase ideas activeCategory searchQuery =
     filter (matches toLowerCase activeCategory searchQuery) ideas"

text \<open>
  \<^verbatim>\<open>Math.ceil(filteredIdeas.length / ITEMS_PER_PAGE)\<close>; the quotient of two array lengths
  is computed exactly enough by a double for its ceiling to be the mathematical one.
\<close>

definition totalPages :: "(string \<Rightarrow> string) \<Rightarrow> Idea list \<Rightarrow> string \<Rightarrow> string \<Rightarrow> int" where
  "totalPages toLowerCase ideas activeCategory searchQuery =
     \<lceil>real (length (filteredIdeas toLowerCase ideas activeCategory searchQuery)) / real ITEMS_PER_PAGE\<rceil>"

definition startIndex :: "int \<Rightarrow> int" where
  "startIndex currentPage = (currentPage - 1) * int ITEMS_PER_PAGE"

definition endIndex :: "int \<Rightarrow> int" where
  "endIndex currentPage = startIndex currentPage + int ITEMS_PER_PAGE"

definition currentPageIdeas :: "(string \<Rightarrow> string) \<Rightarrow> Idea list \<Rightarrow> string \<Rightarrow> string \<Rightarrow> int \<Rightarrow> Idea list" where
  "currentPageIdeas toLowerCase ideas activeCategory searchQuery currentPage =
     slice (filteredIdeas toLowerCase ideas activeCategory searchQuery)
       (startIndex currentPage) (endIndex currentPage)"

text \<open>
  Reference notions for the statements below: the position at which a label is first
  seen, containment of a run that equals the query up to a map of the letters, and
  clamping.
\<close>

definition first_pos :: "'a list \<Rightarrow> 'a \<Rightarrow> nat" where
  "first_pos xs a = length (takeWhile (\<lambda>x. x \<noteq> a) xs)"

definition contains_up_to :: "(char \<Rightarrow> char) \<Rightarrow> string \<Rightarrow> string \<Rightarrow> bool" where
  "contains_up_to f t q = (\<exists>ps u ss. t = ps @ u @ ss \<and> list_all2 (\<lambda>a b. f a = f b) u q)"


section \<open>Loading\<close>

text \<open>
  A JavaScript value as the error branch observes it: \<^verbatim>\<open>undefined\<close>, a string, or any
  other value, of which the code only uses the truthiness and the string that
  \<^verbatim>\<open>new Error(v)\<close> makes of it.
\<close>

datatype jsval = Undefined | Str string | Other bool string

fun truthy :: "jsval \<Rightarrow> bool" where
  "truthy Undefined = False"
| "truthy (Str m) = (m \<noteq> [])"
| "truthy (Other b r) = b"

text \<open>The operator \<^verbatim>\<open>||\<close>.\<close>

definition js_or :: "jsval \<Rightarrow> jsval \<Rightarrow> jsval" where
  "js_or a b = (if truthy a then a else b)"

text \<open>The \<^verbatim>\<open>message\<close> of \<^verbatim>\<open>new Error(v)\<close>.\<close>

fun error_message :: "jsval \<Rightarrow> string" where
  "error_message Undefined = []"
| "error_message (Str m) = m"
| "error_message (Other b r) = r"

text \<open>
  What \<^verbatim>\<open>response.json()\<close> resolves to: an array of idea records; \<^verbatim>\<open>null\<close>, with the
  message of the \<^verbatim>\<open>TypeError\<close> that reading a property of it raises; or a value that
  is not an array (an object, a number, a string, a boolean), with its properties
  \<^verbatim>\<open>details\<close> and \<^verbatim>\<open>error\<close>. An array with elements that are not idea records is not
  represented.
\<close>

datatype data = Ideas "Idea list" | Null string | Value jsval jsval

text \<open>Reading \<^verbatim>\<open>data.details\<close> and \<^verbatim>\<open>data.error\<close>; \<open>Inl\<close> is the exception.\<close>

fun get_details :: "data \<Rightarrow> string + jsval" where
  "get_details (Ideas xs) = Inr Undefined"
| "get_details (Null m) = Inl m"
| "get_details (Value d e) = Inr d"

fun get_error :: "data \<Rightarrow> string + jsval" where
  "get_error (Ideas xs) = Inr Undefined"
| "get_error (Null m) = Inl m"
| "get_error (Value d e) = Inr e"

text \<open>
  How the request ends: \<^verbatim>\<open>fetch\<close> rejects with an error of the given message, or it
  resolves to a response with its \<^verbatim>\<open>ok\<close> flag and the result of \<^verbatim>\<open>json()\<close>, which is
  the message of the parser's error or the parsed value.
\<close>

datatype outcome = Rejected string | Response bool "string + data"

record state =
  ideas :: data
  loading :: bool
  error :: "string option"
  activeCategory :: string
  searchQuery :: string
  view :: string
  currentPage :: int
  isSearching :: bool
  timeoutId :: "(nat \<times> string) option"

text \<open>
  \<open>timeoutId\<close> is the timer of the debounced \<open>handleSearch\<close>: the time at which it is
  due, in milliseconds, and the argument it will pass on; \<open>None\<close> when no timer is
  pending.
\<close>

definition initial :: state where
  "initial = \<lparr>ideas = Ideas [], loading = True, error = None, activeCategory = ''All'',
     searchQuery = [], view = ''grid'', currentPage = 1, isSearching = False,
     timeoutId = None\<rparr>"

text \<open>The expression thrown for a response that is not ok.\<close>

definition failure_message :: "data \<Rightarrow> string + string" where
  "failure_message d =
     (case get_details d of
        Inl m \<Rightarrow> Inl m
      | Inr dv \<Rightarrow>
          if truthy dv then Inr (error_message dv)
          else (case get_error d of
                  Inl m \<Rightarrow> Inl m
                | Inr ev \<Rightarrow>
                    Inr (error_message (js_or ev (Str ''Failed to fetch ideas'')))))"

text \<open>The \<^verbatim>\<open>try\<close> block: \<open>Inl\<close> is the message of what it throws, \<open>Inr\<close> the stored data.\<close>

definition try_fetch :: "outcome \<Rightarrow> string + data" where
  "try_fetch out =
     (case out of
        Rejected m \<Rightarrow> Inl m
      | Response ok body \<Rightarrow>
          (case body of
             Inl m \<Rightarrow> Inl m
           | Inr d \<Rightarrow>
               if \<not> ok then (case failure_message d of Inl m \<Rightarrow> Inl m | Inr m \<Rightarrow> Inl m)
               else Inr d))"

definition fetchIdeas :: "outcome \<Rightarrow> state \<Rightarrow> state" where
  "fetchIdeas out s =
     (case try_fetch out of
        Inr d \<Rightarrow> s\<lparr>ideas := d, loading := False\<rparr>
      | Inl m \<Rightarrow> s\<lparr>error := Some m, loading := False\<rparr>)"

text \<open>
  What the render shows of the load: the error card when \<open>error\<close> is truthy, else the
  skeleton while \<open>loading\<close>, else the ideas.
\<close>

datatype loadState = Loading | Ready | Failed string

definition errorShown :: "state \<Rightarrow> bool" where
  "errorShown s = (case error s of None \<Rightarrow> False | Some m \<Rightarrow> m \<noteq> [])"

definition loadState :: "state \<Rightarrow> loadState" where
  "loadState s =
     (case error s of
        Some m \<Rightarrow> if m \<noteq> [] then Failed m else if loading s then Loading else Ready
      | None \<Rightarrow> if loading s then Loading else Ready)"

section \<open>Event handlers\<close>

text \<open>
  The effect with dependencies \<open>[activeCategory, searchQuery]\<close>: after a render in which
  one of them differs from the previous render, it sets the page to 1.
\<close>

definition pageResetEffect :: "state \<Rightarrow> state \<Rightarrow> state" where
  "pageResetEffect prev s =
     (if activeCategory s \<noteq> activeCategory prev \<or> searchQuery s \<noteq> searchQuery prev
      then s\<lparr>currentPage := 1\<rparr> else s)"

text \<open>
  \<open>handleSearch\<close>, the debounced function: a call at time \<open>now\<close> clears the pending timer
  and sets a new one, due 500 ms later; \<open>debounced\<close> is what the timer runs.
\<close>

definition handleSearch :: "nat \<Rightarrow> string \<Rightarrow> state \<Rightarrow> state" where
  "handleSearch now query s = s\<lparr>timeoutId := Some (now + 500, query)\<rparr>"

definition debounced :: "string \<Rightarrow> state \<Rightarrow> state" where
  "debounced query s = s\<lparr>searchQuery := query, isSearching := False, timeoutId := None\<rparr>"

definition onSearchInputChange :: "nat \<Rightarrow> string \<Rightarrow> state \<Rightarrow> state" where
  "onSearchInputChange now query s =
     handleSearch now query (s\<lparr>searchQuery := query, isSearching := True\<rparr>)"

definition setActiveCategory :: "string \<Rightarrow> state \<Rightarrow> state" where
  "setActiveCategory c s = s\<lparr>activeCategory := c\<rparr>"

definition setView :: "string \<Rightarrow> state \<Rightarrow> state" where
  "setView v s = s\<lparr>view := v\<rparr>"

definition setCurrentPage :: "int \<Rightarrow> state \<Rightarrow> state" where
  "setCurrentPage n s = s\<lparr>currentPage := n\<rparr>"

text \<open>
  The controls exist when the render shows them. \<open>storedIdeas\<close> gives the ideas when
  \<open>ideas\<close> holds an array of idea records, and \<open>normalView\<close> when, moreover, the
  component renders its main view and not the error card. The pagination is shown when
  neither searching nor loading and there is more than one page. On page 1 Previous, and
  on the last page Next, get the class \<^verbatim>\<open>pointer-events-none\<close> and keep their handlers.
\<close>

definition storedIdeas :: "state \<Rightarrow> Idea list option" where
  "storedIdeas s = (case ideas s of Ideas xs \<Rightarrow> Some xs | Null m \<Rightarrow> None | Value d e \<Rightarrow> None)"

definition normalView :: "state \<Rightarrow> Idea list option" where
  "normalView s = (if errorShown s then None else storedIdeas s)"

definition paginationShown :: "(string \<Rightarrow> string) \<Rightarrow> state \<Rightarrow> Idea list \<Rightarrow> bool" where
  "paginationShown toLowerCase s xs =
     (\<not> (isSearching s \<or> loading s) \<and> 1 < totalPages toLowerCase xs (activeCategory s) (searchQuery s))"

datatype event =
    FetchSettled outcome
  | SearchInput string
  | TimerFired
  | CategoryClick string
  | ViewClick string
  | PageLink int
  | Previous
  | Next

fun handler :: "(string \<Rightarrow> string) \<Rightarrow> nat \<Rightarrow> event \<Rightarrow> state \<Rightarrow> state option" where
  "handler toLowerCase now (FetchSettled out) s = (if loading s then Some (fetchIdeas out s) else None)"
| "handler toLowerCase now TimerFired s =
     (case timeoutId s of
        None \<Rightarrow> None
      | Some (due, query) \<Rightarrow> if due \<le> now then Some (debounced query s) else None)"
| "handler toLowerCase now (SearchInput query) s =
     (case normalView s of None \<Rightarrow> None | Some xs \<Rightarrow> Some (onSearchInputChange now query s))"
| "handler toLowerCase now (CategoryClick c) s =
     (case normalView s of
        None \<Rightarrow> None
      | Some xs \<Rightarrow> if c \<in> set (map name (categories xs)) then Some (setActiveCategory c s) else None)"
| "handler toLowerCase now (ViewClick v) s =
     (case normalView s of
        None \<Rightarrow> None
      | Some xs \<Rightarrow> if v = ''grid'' \<or> v = ''list'' then Some (setView v s) else None)"
| "handler toLowerCase now (PageLink i) s =
     (case normalView s of
        None \<Rightarrow> None
      | Some xs \<Rightarrow>
          if paginationShown toLowerCase s xs \<and> 1 \<le> i \<and> i \<le> totalPages toLowerCase xs (activeCategory s) (searchQuery s)
          then Some (setCurrentPage i s) else None)"
| "handler toLowerCase now Previous s =
     (case normalView s of
        None \<Rightarrow> None
      | Some xs \<Rightarrow>
          if paginationShown toLowerCase s xs then Some (setCurrentPage (max 1 (currentPage s - 1)) s)
          else None)"
| "handler toLowerCase now Next s =
     (case normalView s of
        None \<Rightarrow> None
      | Some xs \<Rightarrow>
          if paginationShown toLowerCase s xs
          then Some (setCurrentPage
                 (min (totalPages toLowerCase xs (activeCategory s) (searchQuery s)) (currentPage s + 1)) s)
          else None)"

text \<open>One event: its handler, the render, and the effect.\<close>

definition step :: "(string \<Rightarrow> string) \<Rightarrow> nat \<Rightarrow> event \<Rightarrow> state \<Rightarrow> state option" where
  "step toLowerCase now ev s = map_option (pageResetEffect s) (handler toLowerCase now ev s)"

inductive reachable :: "(string \<Rightarrow> string) \<Rightarrow> state \<Rightarrow> bool" where
  reachable_initial: "reachable toLowerCase initial"
| reachable_step: "reachable toLowerCase s \<Longrightarrow> step toLowerCase now ev s = Some s' \<Longrightarrow> reachable toLowerCase s'"

text \<open>A burst of keystrokes, each with its time.\<close>

definition keystroke :: "nat \<Rightarrow> string \<Rightarrow> state \<Rightarrow> state" where
  "keystroke now query s = pageResetEffect s (onSearchInputChange now query s)"

fun typing :: "(nat \<times> string) list \<Rightarrow> state \<Rightarrow> state" where
  "typing [] s = s"
| "typing ((now, query) # ks) s = typing ks (keystroke now query s)"

text \<open>The derived values of the render of a state.\<close>

definition rendered_categories :: "state \<Rightarrow> facet list option" where
  "rendered_categories s = map_option categories (storedIdeas s)"

definition rendered_currentPageIdeas :: "(string \<Rightarrow> string) \<Rightarrow> state \<Rightarrow> Idea list option" where
  "rendered_currentPageIdeas toLowerCase s =
     map_option (\<lambda>xs. currentPageIdeas toLowerCase xs (activeCategory s) (searchQuery s) (currentPage s))
       (storedIdeas s)"

text \<open>
  What the component shows for a state. The facets are computed first (line 65), and
  \<^verbatim>\<open>ideas.flatMap\<close> raises a \<^verbatim>\<open>TypeError\<close> when \<open>ideas\<close> is \<^verbatim>\<open>null\<close> or not an array:
  the render fails. Otherwise it is the error card when \<open>error\<close> is truthy, the skeleton
  while searching or loading, and else the ideas of the current page.
\<close>

datatype view = Crash | ErrorCard string | Skeleton | Shown "Idea list"

definition render :: "(string \<Rightarrow> string) \<Rightarrow> state \<Rightarrow> view" where
  "render toLowerCase s =
     (case storedIdeas s of
        None \<Rightarrow> Crash
      | Some xs \<Rightarrow>
          (case error s of
             None \<Rightarrow>
               if isSearching s \<or> loading s then Skeleton
               else Shown (currentPageIdeas toLowerCase xs (activeCategory s) (searchQuery s)
                      (currentPage s))
           | Some m \<Rightarrow>
               if m \<noteq> [] then ErrorCard m
               else if isSearching s \<or> loading s then Skeleton
               else Shown (currentPageIdeas toLowerCase xs (activeCategory s) (searchQuery s)
                      (currentPage s))))"

text \<open>
  The states React renders for one event: the state the handler leaves and, when the
  effect changes it, the state after the effect. The effect runs after the first of
  them has been rendered.
\<close>

definition renders :: "(string \<Rightarrow> string) \<Rightarrow> nat \<Rightarrow> event \<Rightarrow> state \<Rightarrow> state list" where
  "renders toLowerCase now ev s =
     (case handler toLowerCase now ev s of
        None \<Rightarrow> []
      | Some h \<Rightarrow> if pageResetEffect s h = h then [h] else [h, pageResetEffect s h])"

text \<open>What holds of every state the component settles in.\<close>

definition invariant :: "(string \<Rightarrow> string) \<Rightarrow> state \<Rightarrow> bool" where
  "invariant toLowerCase s =
     (1 \<le> currentPage s \<and>
      (loading s \<longrightarrow> currentPage s = 1 \<and> ideas s = Ideas [] \<and> error s = None) \<and>
      (error s \<noteq> None \<longrightarrow> ideas s = Ideas []) \<and>
      (\<forall>xs. ideas s = Ideas xs \<longrightarrow>
         currentPage s \<le> max 1 (totalPages toLowerCase xs (activeCategory s) (searchQuery s))))"

subsection \<open>Sample data\<close>

text \<open>
  The lower-casing of the sample strings: what \<^verbatim>\<open>String.prototype.toLowerCase\<close> does
  on text made of ASCII characters and the Greek letters capital alpha to capital omega
  (\<^verbatim>\<open>U+0391\<close> to \<^verbatim>\<open>U+03A9\<close>) and small alpha to small omega (\<^verbatim>\<open>U+03B1\<close> to
  \<^verbatim>\<open>U+03C9\<close>), in UTF-8. A capital letter becomes the small one. A capital
  sigma becomes the final sigma \<^verbatim>\<open>U+03C2\<close> when a cased letter comes before it, with
  only case-ignorable characters in between, and no cased letter comes after it in the
  same way; otherwise it becomes \<^verbatim>\<open>U+03C3\<close>. The case-ignorable ASCII characters are the
  apostrophe, the full stop, the colon, the circumflex and the grave accent.
\<close>

definition ascii_lower :: "char \<Rightarrow> char" where
  "ascii_lower c =
     (let n = (of_char c :: nat) in if 65 \<le> n \<and> n \<le> 90 then char_of (n + 32) else c)"

definition ascii_letter :: "char \<Rightarrow> bool" where
  "ascii_letter c =
     (let n = (of_char c :: nat) in (65 \<le> n \<and> n \<le> 90) \<or> (97 \<le> n \<and> n \<le> 122))"

definition ascii_case_ignorable :: "char \<Rightarrow> bool" where
  "ascii_case_ignorable c = (c \<in> set ''.:^`'' \<or> of_char c = (39 :: nat))"

definition greek_lead :: "char \<Rightarrow> bool" where
  "greek_lead c = (of_char c = (206 :: nat) \<or> of_char c = (207 :: nat))"

fun cased_follows :: "string \<Rightarrow> bool" where
  "cased_follows [] = False"
| "cased_follows (c # cs) =
     (if ascii_case_ignorable c then cased_follows cs else ascii_letter c \<or> greek_lead c)"

fun lower_from :: "bool \<Rightarrow> string \<Rightarrow> string" where
  "lower_from prev [] = []"
| "lower_from prev [c] = [ascii_lower c]"
| "lower_from prev (c # d # cs) =
     (let m = (of_char c :: nat); n = (of_char d :: nat) in
      if m = 206 then
        (if n = 163 then
           (if prev \<and> \<not> cased_follows cs then [char_of (207 :: nat), char_of (130 :: nat)]
            else [char_of (207 :: nat), char_of (131 :: nat)])
         else if 145 \<le> n \<and> n \<le> 159 then [c, char_of (n + 32)]
         else if 160 \<le> n \<and> n \<le> 169 \<and> n \<noteq> 162 then [char_of (207 :: nat), char_of (n - 32)]
         else [c, d]) @ lower_from True cs
      else if m = 207 then [c, d] @ lower_from True cs
      else ascii_lower c #
        lower_from (ascii_letter c \<or> (ascii_case_ignorable c \<and> prev)) (d # cs))"

definition sample_toLowerCase :: "string \<Rightarrow> string" where
  "sample_toLowerCase s = lower_from False s"

text \<open>The letters capital alpha, capital sigma, small alpha, small sigma, final sigma.\<close>

definition capital_alpha :: string where
  "capital_alpha = [char_of (206 :: nat), char_of (145 :: nat)]"

definition capital_sigma :: string where
  "capital_sigma = [char_of (206 :: nat), char_of (163 :: nat)]"

definition small_alpha :: string where
  "small_alpha = [char_of (206 :: nat), char_of (177 :: nat)]"

definition small_sigma :: string where
  "small_sigma = [char_of (207 :: nat), char_of (131 :: nat)]"

definition final_sigma :: string where
  "final_sigma = [char_of (207 :: nat), char_of (130 :: nat)]"

definition sample_idea :: "string \<Rightarrow> string \<Rightarrow> string list \<Rightarrow> Idea" where
  "sample_idea i t cs =
     \<lparr>idea_id = i, title = t, description = ''An idea'', category = cs, prize = 100,
      difficulty = ''Easy''\<rparr>"

definition seven :: "Idea list" where
  "seven =
     [sample_idea ''1'' ''Chat Bot'' [''AI'', ''Web''], sample_idea ''2'' ''Tutor'' [''AI''],
      sample_idea ''3'' ''Wallet'' [''Web''], sample_idea ''4'' ''Vision'' [''AI''],
      sample_idea ''5'' ''Planner'' [''AI'', ''Tools''], sample_idea ''6'' ''Ledger'' [''Tools''],
      sample_idea ''7'' ''Summariser'' [''AI'']]"

definition loaded :: state where
  "loaded = initial\<lparr>ideas := Ideas seven, loading := False\<rparr>"

definition robot :: state where
  "robot = loaded\<lparr>searchQuery := ''robot'', isSearching := True, timeoutId := Some (510, ''robot'')\<rparr>"

definition page2 :: state where
  "page2 = loaded\<lparr>currentPage := 2\<rparr>"

definition rate_limited :: state where
  "rate_limited = initial\<lparr>error := Some ''rate limited'', loading := False\<rparr>"

definition page1_AI :: state where
  "page1_AI = loaded\<lparr>activeCategory := ''AI''\<rparr>"

definition greek_idea :: Idea where
  "greek_idea = sample_idea ''8'' (capital_alpha @ capital_sigma) [''AI'']"

definition stale :: state where
  "stale = page2\<lparr>activeCategory := ''AI''\<rparr>"

definition stored_object :: state where
  "stored_object = initial\<lparr>ideas := Value Undefined Undefined, loading := False\<rparr>"

text \<open>
  The loads that end in the \<^verbatim>\<open>catch\<close> block: a rejected request, a body that does not
  parse, a response that is not ok.
\<close>

fun failing :: "outcome \<Rightarrow> bool" where
  "failing (Rejected m) = True"
| "failing (Response ok (Inl m)) = True"
| "failing (Response ok (Inr d)) = (\<not> ok)"

section \<open>Facts about the library functions\<close>


lemma includes_str_sublist: "includes_str s q \<longleftrightarrow> sublist q s"
  by (induction s) (auto simp: sublist_Cons_right)

lemma map_eq_all2: "map f u = map f q \<longleftrightarrow> list_all2 (\<lambda>a b. f a = f b) u q"
proof -
  have "map f u = map f q \<longleftrightarrow> list_all2 (=) (map f u) (map f q)"
    by (simp add: list.rel_eq)
  also have "\<dots> \<longleftrightarrow> list_all2 (\<lambda>a b. f a = f b) u q"
    by (simp add: list.rel_map)
  finally show ?thesis .
qed

lemma sublist_map_iff:
  "sublist (map f q) (map f t) \<longleftrightarrow> (\<exists>ps u ss. t = ps @ u @ ss \<and> map f u = map f q)"
proof
  assume "sublist (map f q) (map f t)"
  then obtain ps' ss' where "map f t = ps' @ map f q @ ss'"
    by (auto simp: sublist_def)
  then have "\<exists>us vs. t = us @ vs \<and> ps' = map f us \<and> map f q @ ss' = map f vs"
    by (simp only: map_eq_append_conv)
  then obtain ps r where t: "t = ps @ r" and r: "map f q @ ss' = map f r"
    by blast
  from r have "\<exists>us vs. r = us @ vs \<and> map f q = map f us \<and> ss' = map f vs"
    by (simp only: append_eq_map_conv)
  then obtain u ss where "r = u @ ss" "map f u = map f q"
    by auto
  with t show "\<exists>ps u ss. t = ps @ u @ ss \<and> map f u = map f q" by blast
next
  assume "\<exists>ps u ss. t = ps @ u @ ss \<and> map f u = map f q"
  then obtain ps u ss where "t = ps @ u @ ss" "map f u = map f q" by blast
  then have "map f t = map f ps @ map f q @ map f ss" by simp
  then show "sublist (map f q) (map f t)"
    unfolding sublist_def by blast
qed

lemma slice_length: "length (slice xs a (a + 6)) \<le> 6"
  by (auto simp: slice_def Let_def)

lemma slice_sublist: "sublist (slice xs a b) xs"
proof -
  have "sublist (take n (drop k xs)) xs" for n k
    by (meson sublist_order.order_trans sublist_take sublist_drop)
  then show ?thesis by (simp add: slice_def Let_def)
qed

lemma slice_take_drop:
  "0 \<le> a \<Longrightarrow> slice xs a (a + int n) = take n (drop (nat a) xs)"
proof -
  assume a: "0 \<le> a"
  consider "a + int n \<le> int (length xs)" | "a \<le> int (length xs)" "int (length xs) < a + int n"
    | "int (length xs) < a" by linarith
  then show ?thesis
  proof cases
    case 1
    with a show ?thesis by (simp add: slice_def Let_def min_def)
  next
    case 2
    with a have "length (drop (nat a) xs) \<le> n" by simp
    with a 2 show ?thesis by (simp add: slice_def Let_def min_def)
  next
    case 3
    with a show ?thesis by (simp add: slice_def Let_def min_def)
  qed
qed

lemma slice_Nil: "slice [] a b = []"
  by (simp add: slice_def Let_def)

lemma ceil6: "\<lceil>real n / real ITEMS_PER_PAGE\<rceil> = (int n + 5) div 6"
  unfolding ITEMS_PER_PAGE_def by linarith

lemma set_add_all_set: "set (set_add_all acc xs) = set acc \<union> set xs"
  by (induction xs arbitrary: acc) auto

lemma set_add_all_distinct: "distinct acc \<Longrightarrow> distinct (set_add_all acc xs)"
  by (induction xs arbitrary: acc) auto

lemma set_add_all_acc:
  "set_add_all acc xs = acc @ filter (\<lambda>z. z \<notin> set acc) (set_add_all [] xs)"
proof (induction xs arbitrary: acc)
  case Nil
  then show ?case by simp
next
  case (Cons y ys)
  let ?S = "set_add_all [] ys"
  have one: "set_add_all [y] ys = [y] @ filter (\<lambda>z. z \<notin> set [y]) ?S"
    by (rule Cons.IH)
  show ?case
  proof (cases "y \<in> set acc")
    case True
    have "filter (\<lambda>z. z \<notin> set acc) (filter (\<lambda>z. z \<noteq> y) ?S) = filter (\<lambda>z. z \<notin> set acc) ?S"
      using True by (auto intro: filter_cong)
    moreover have "set_add_all acc ys = acc @ filter (\<lambda>z. z \<notin> set acc) ?S"
      by (rule Cons.IH)
    ultimately show ?thesis using True one by simp
  next
    case False
    have "set_add_all (acc @ [y]) ys = (acc @ [y]) @ filter (\<lambda>z. z \<notin> set (acc @ [y])) ?S"
      by (rule Cons.IH)
    moreover have "filter (\<lambda>z. z \<notin> set (acc @ [y])) ?S
        = filter (\<lambda>z. z \<notin> set acc) (filter (\<lambda>z. z \<noteq> y) ?S)"
      by (auto intro: filter_cong)
    ultimately show ?thesis using False one by simp
  qed
qed

lemma array_from_set_Cons:
  "array_from_set (x # xs) = x # filter (\<lambda>y. y \<noteq> x) (array_from_set xs)"
  using set_add_all_acc [of "[x]" xs] by (simp add: array_from_set_def)

lemma first_pos_Cons:
  "first_pos (x # xs) y = (if y = x then 0 else Suc (first_pos xs y))"
  by (auto simp add: first_pos_def)

lemma first_pos_sorted:
  "sorted_wrt (<) (map (first_pos xs) (array_from_set xs))"
proof (induction xs)
  case Nil
  then show ?case by (simp add: array_from_set_def)
next
  case (Cons x xs)
  let ?F = "filter (\<lambda>y. y \<noteq> x) (array_from_set xs)"
  have "sorted_wrt (<) (map (first_pos xs) ?F)"
    using Cons.IH by (simp add: sorted_wrt_map sorted_wrt_filter)
  then have "sorted_wrt (<) (map Suc (map (first_pos xs) ?F))"
    by (simp add: sorted_wrt_map)
  moreover have "map (first_pos (x # xs)) ?F = map Suc (map (first_pos xs) ?F)"
    by (simp add: first_pos_Cons)
  ultimately have "sorted_wrt (<) (map (first_pos (x # xs)) ?F)"
    by (simp only:)
  moreover have "\<forall>y \<in> set ?F. first_pos (x # xs) x < first_pos (x # xs) y"
    by (simp add: first_pos_Cons)
  ultimately show ?case
    by (simp add: array_from_set_Cons del: filter.simps)
qed

section \<open>Facts about the handlers\<close>

lemma normalView_Some: "normalView s = Some xs \<Longrightarrow> ideas s = Ideas xs \<and> \<not> errorShown s"
  by (auto simp: normalView_def storedIdeas_def split: if_splits data.splits)

lemma invariant_initial: "invariant toLowerCase initial"
  by (simp add: invariant_def initial_def)

lemma fetchIdeas_Inl:
  "try_fetch out = Inl m \<Longrightarrow> fetchIdeas out s = s\<lparr>error := Some m, loading := False\<rparr>"
  by (simp add: fetchIdeas_def)

lemma fetchIdeas_Inr:
  "try_fetch out = Inr d \<Longrightarrow> fetchIdeas out s = s\<lparr>ideas := d, loading := False\<rparr>"
  by (simp add: fetchIdeas_def)

lemma pageResetEffect_fields:
  "ideas (pageResetEffect p s) = ideas s"
  "loading (pageResetEffect p s) = loading s"
  "error (pageResetEffect p s) = error s"
  "activeCategory (pageResetEffect p s) = activeCategory s"
  "searchQuery (pageResetEffect p s) = searchQuery s"
  "isSearching (pageResetEffect p s) = isSearching s"
  "timeoutId (pageResetEffect p s) = timeoutId s"
  "view (pageResetEffect p s) = view s"
  by (simp_all add: pageResetEffect_def)

lemma pageResetEffect_page:
  "currentPage (pageResetEffect p s) =
     (if activeCategory s \<noteq> activeCategory p \<or> searchQuery s \<noteq> searchQuery p then 1
      else currentPage s)"
  by (simp add: pageResetEffect_def)

lemma step_reset:
  assumes "step toLowerCase now ev s = Some s'"
    and "activeCategory s' \<noteq> activeCategory s \<or> searchQuery s' \<noteq> searchQuery s"
  shows "currentPage s' = 1"
proof -
  from assms(1) obtain h where h: "handler toLowerCase now ev s = Some h" and s': "s' = pageResetEffect s h"
    by (auto simp: step_def)
  from assms(2) show ?thesis
    by (simp add: s' pageResetEffect_fields pageResetEffect_page)
qed

lemma invariant_step:
  assumes inv: "invariant toLowerCase s" and st: "step toLowerCase now ev s = Some s'"
  shows "invariant toLowerCase s'"
proof -
  from st obtain h where h: "handler toLowerCase now ev s = Some h" and s': "s' = pageResetEffect s h"
    by (auto simp: step_def)
  show ?thesis
  proof (cases ev)
    case (FetchSettled out)
    with h have l: "loading s" and hh: "h = fetchIdeas out s"
      by (auto split: if_splits)
    from inv l have p: "currentPage s = 1" "ideas s = Ideas []" "error s = None"
      by (auto simp: invariant_def)
    show ?thesis
    proof (cases "try_fetch out")
      case (Inl m)
      then show ?thesis using p
        by (simp add: s' hh fetchIdeas_Inl invariant_def pageResetEffect_def)
    next
      case (Inr d)
      then show ?thesis using p
        by (simp add: s' hh fetchIdeas_Inr invariant_def pageResetEffect_def)
    qed
  next
    case (SearchInput q)
    with h have hh: "h = onSearchInputChange now q s"
      by (auto split: option.splits)
    show ?thesis using inv
      by (auto simp: s' hh onSearchInputChange_def handleSearch_def invariant_def pageResetEffect_def)
  next
    case TimerFired
    with h obtain due q where hh: "h = debounced q s"
      by (auto split: option.splits if_splits)
    show ?thesis using inv
      by (auto simp: s' hh debounced_def invariant_def pageResetEffect_def)
  next
    case (CategoryClick c)
    with h have hh: "h = setActiveCategory c s"
      by (auto split: option.splits if_splits)
    show ?thesis using inv
      by (auto simp: s' hh setActiveCategory_def invariant_def pageResetEffect_def)
  next
    case (ViewClick v)
    with h have hh: "h = setView v s"
      by (auto split: option.splits if_splits)
    show ?thesis using inv
      by (auto simp: s' hh setView_def invariant_def pageResetEffect_def)
  next
    case (PageLink i)
    with h obtain xs where nv: "normalView s = Some xs" and sh: "paginationShown toLowerCase s xs"
      and i: "1 \<le> i" "i \<le> totalPages toLowerCase xs (activeCategory s) (searchQuery s)"
      and hh: "h = setCurrentPage i s"
      by (auto split: option.splits if_splits)
    from nv have xs: "ideas s = Ideas xs" by (simp add: normalView_Some)
    from sh have nl: "\<not> loading s" by (simp add: paginationShown_def)
    show ?thesis using inv xs nl i
      by (auto simp: s' hh setCurrentPage_def invariant_def pageResetEffect_def)
  next
    case Previous
    with h obtain xs where nv: "normalView s = Some xs" and sh: "paginationShown toLowerCase s xs"
      and hh: "h = setCurrentPage (max 1 (currentPage s - 1)) s"
      by (auto split: option.splits if_splits)
    from nv have xs: "ideas s = Ideas xs" by (simp add: normalView_Some)
    from sh have nl: "\<not> loading s" by (simp add: paginationShown_def)
    show ?thesis using inv xs nl
      by (auto simp: s' hh setCurrentPage_def invariant_def pageResetEffect_def)
  next
    case Next
    with h obtain xs where nv: "normalView s = Some xs" and sh: "paginationShown toLowerCase s xs"
      and hh: "h = setCurrentPage (min (totalPages toLowerCase xs (activeCategory s) (searchQuery s)) (currentPage s + 1)) s"
      by (auto split: option.splits if_splits)
    from nv have xs: "ideas s = Ideas xs" by (simp add: normalView_Some)
    from sh have nl: "\<not> loading s" and tp: "1 < totalPages toLowerCase xs (activeCategory s) (searchQuery s)"
      by (simp_all add: paginationShown_def)
    show ?thesis using inv xs nl tp
      by (auto simp: s' hh setCurrentPage_def invariant_def pageResetEffect_def)
  qed
qed

lemma reachable_invariant: "reachable toLowerCase s \<Longrightarrow> invariant toLowerCase s"
  by (induction rule: reachable.induct) (auto intro: invariant_initial invariant_step)

section \<open>The facet list\<close>


lemma categories_tl:
  "tl (categories collection) =
     map (\<lambda>c. \<lparr>facet_id = c, name = c,
                count = length (filter (\<lambda>idea. c \<in> set (category idea)) collection)\<rparr>)
       (array_from_set (concat (map category collection)))"
  by (simp add: categories_def Let_def includes_arr_def)

lemma categories_names:
  "map name (tl (categories collection)) = array_from_set (concat (map category collection))"
  by (simp add: categories_tl comp_def)

text \<open>
  C6. The facet list starts with the facet \<open>All\<close>, whose count is the number of loaded
  ideas. The facets after it are named by the category labels of all ideas, each once, in
  the order in which the labels are first seen; the count of a label is the number of
  ideas whose category sequence contains it.
\<close>

theorem categories_facets:
  "categories collection =
     \<lparr>facet_id = ''all'', name = ''All'', count = length collection\<rparr> # tl (categories collection) \<and>
   distinct (map name (tl (categories collection))) \<and>
   set (map name (tl (categories collection))) = (\<Union>i \<in> set collection. set (category i)) \<and>
   sorted_wrt (<)
     (map (first_pos (concat (map category collection))) (map name (tl (categories collection)))) \<and>
   (\<forall>f \<in> set (tl (categories collection)).
      facet_id f = name f \<and>
      count f = card {k. k < length collection \<and> name f \<in> set (category (collection ! k))})"
proof (intro conjI)
  show "categories collection =
     \<lparr>facet_id = ''all'', name = ''All'', count = length collection\<rparr> # tl (categories collection)"
    by (simp add: categories_def Let_def)
  show "distinct (map name (tl (categories collection)))"
    by (simp only: categories_names array_from_set_def) (simp add: set_add_all_distinct)
  show "set (map name (tl (categories collection))) = (\<Union>i \<in> set collection. set (category i))"
    by (simp only: categories_names array_from_set_def) (simp add: set_add_all_set)
  show "sorted_wrt (<)
     (map (first_pos (concat (map category collection))) (map name (tl (categories collection))))"
    by (simp only: categories_names first_pos_sorted)
  show "\<forall>f \<in> set (tl (categories collection)).
      facet_id f = name f \<and>
      count f = card {k. k < length collection \<and> name f \<in> set (category (collection ! k))}"
    by (auto simp: categories_tl length_filter_conv_card)
qed

theorem categories_facets_witness:
  "\<lparr>facet_id = ''AI'', name = ''AI'', count = 5\<rparr> \<in> set (tl (categories seven)) \<and>
   card {k. k < length seven \<and> ''AI'' \<in> set (category (seven ! k))} = 5 \<and>
   map name (categories seven) = [''All'', ''AI'', ''Web'', ''Tools''] \<and>
   map count (categories seven) = [7, 5, 2, 2]"
proof -
  have m: "\<lparr>facet_id = ''AI'', name = ''AI'', count = 5\<rparr> \<in> set (tl (categories seven))"
    by code_simp
  have n: "map name (categories seven) = [''All'', ''AI'', ''Web'', ''Tools'']"
    by code_simp
  have c: "map count (categories seven) = [7, 5, 2, 2]"
    by code_simp
  from categories_facets [of seven] m
  have "count \<lparr>facet_id = ''AI'', name = ''AI'', count = 5\<rparr> =
      card {k. k < length seven \<and>
        name \<lparr>facet_id = ''AI'', name = ''AI'', count = 5\<rparr> \<in> set (category (seven ! k))}"
    by blast
  then show ?thesis using m n c by simp
qed

section \<open>Filtering\<close>

lemma matches_iff:
  "matches toLowerCase cat query idea \<longleftrightarrow>
     (cat = ''All'' \<or> cat \<in> set (category idea)) \<and>
     (sublist (toLowerCase query) (toLowerCase (title idea)) \<or>
      sublist (toLowerCase query) (toLowerCase (description idea)))"
  by (simp add: matches_def includes_arr_def includes_str_sublist)

lemma sublist_letterwise:
  "sublist (map f q) (map f t) \<longleftrightarrow> contains_up_to f t q"
  by (simp add: sublist_map_iff map_eq_all2 contains_up_to_def)

text \<open>
  C4, as the code has it. The filtered ideas are exactly the loaded ideas, in their
  order, whose categories contain the active category (or the active category is
  \<open>All\<close>) and whose lower-cased title or lower-cased description contains the lower-cased
  search query, the lower-casing being that of \<^verbatim>\<open>toLowerCase\<close>. With the empty query,
  which lower-cases to itself, only the category condition is left. Where
  \<^verbatim>\<open>toLowerCase\<close> maps the title, the description and the query letter by letter, the
  text condition is that the title or the description contains a run that equals the
  query up to that map of the letters, that is, up to letter case.
\<close>

theorem filteredIdeas_exact:
  "filteredIdeas toLowerCase collection cat query =
     filter (\<lambda>idea. (cat = ''All'' \<or> cat \<in> set (category idea)) \<and>
                    (sublist (toLowerCase query) (toLowerCase (title idea)) \<or>
                     sublist (toLowerCase query) (toLowerCase (description idea)))) collection \<and>
   set (filteredIdeas toLowerCase collection cat query) =
     {idea \<in> set collection.
        (cat = ''All'' \<or> cat \<in> set (category idea)) \<and>
        (sublist (toLowerCase query) (toLowerCase (title idea)) \<or>
         sublist (toLowerCase query) (toLowerCase (description idea)))} \<and>
   (toLowerCase [] = [] \<longrightarrow>
      filteredIdeas toLowerCase collection cat [] =
        filter (\<lambda>idea. cat = ''All'' \<or> cat \<in> set (category idea)) collection) \<and>
   (toLowerCase query = map f query \<and>
    (\<forall>idea \<in> set collection.
       toLowerCase (title idea) = map f (title idea) \<and>
       toLowerCase (description idea) = map f (description idea)) \<longrightarrow>
      filteredIdeas toLowerCase collection cat query =
        filter (\<lambda>idea. (cat = ''All'' \<or> cat \<in> set (category idea)) \<and>
                       (contains_up_to f (title idea) query \<or>
                        contains_up_to f (description idea) query)) collection)"
proof (intro conjI impI)
  have m: "matches toLowerCase cat q =
      (\<lambda>idea. (cat = ''All'' \<or> cat \<in> set (category idea)) \<and>
               (sublist (toLowerCase q) (toLowerCase (title idea)) \<or>
                sublist (toLowerCase q) (toLowerCase (description idea))))" for q
    by (rule ext) (rule matches_iff)
  show e: "filteredIdeas toLowerCase collection cat query =
     filter (\<lambda>idea. (cat = ''All'' \<or> cat \<in> set (category idea)) \<and>
                    (sublist (toLowerCase query) (toLowerCase (title idea)) \<or>
                     sublist (toLowerCase query) (toLowerCase (description idea)))) collection"
    by (simp add: filteredIdeas_def m)
  show "set (filteredIdeas toLowerCase collection cat query) =
     {idea \<in> set collection.
        (cat = ''All'' \<or> cat \<in> set (category idea)) \<and>
        (sublist (toLowerCase query) (toLowerCase (title idea)) \<or>
         sublist (toLowerCase query) (toLowerCase (description idea)))}"
    by (simp add: filteredIdeas_def m)
  show "filteredIdeas toLowerCase collection cat [] =
        filter (\<lambda>idea. cat = ''All'' \<or> cat \<in> set (category idea)) collection"
    if "toLowerCase [] = []"
    using that by (simp add: filteredIdeas_def m)
  show "filteredIdeas toLowerCase collection cat query =
        filter (\<lambda>idea. (cat = ''All'' \<or> cat \<in> set (category idea)) \<and>
                       (contains_up_to f (title idea) query \<or>
                        contains_up_to f (description idea) query)) collection"
    if "toLowerCase query = map f query \<and>
    (\<forall>idea \<in> set collection.
       toLowerCase (title idea) = map f (title idea) \<and>
       toLowerCase (description idea) = map f (description idea))"
    unfolding e using that by (intro filter_cong refl) (simp add: sublist_letterwise)
qed

theorem filteredIdeas_exact_witness:
  "sample_toLowerCase [] = [] \<and>
   sample_toLowerCase ''BOT'' = map ascii_lower ''BOT'' \<and>
   map idea_id (filteredIdeas sample_toLowerCase seven ''Web'' ''BOT'') = [''1''] \<and>
   filteredIdeas sample_toLowerCase seven ''Web'' ''BOT'' =
     filter (\<lambda>idea. (''Web'' = ''All'' \<or> ''Web'' \<in> set (category idea)) \<and>
                    (contains_up_to ascii_lower (title idea) ''BOT'' \<or>
                     contains_up_to ascii_lower (description idea) ''BOT'')) seven \<and>
   map idea_id (filteredIdeas sample_toLowerCase seven ''Tools'' []) = [''5'', ''6''] \<and>
   filteredIdeas sample_toLowerCase seven ''Tools'' [] =
     filter (\<lambda>idea. ''Tools'' = ''All'' \<or> ''Tools'' \<in> set (category idea)) seven"
proof -
  have a: "map idea_id (filteredIdeas sample_toLowerCase seven ''Web'' ''BOT'') = [''1'']"
    by code_simp
  have b: "map idea_id (filteredIdeas sample_toLowerCase seven ''Tools'' []) = [''5'', ''6'']"
    by code_simp
  have n: "sample_toLowerCase [] = []"
    by (simp add: sample_toLowerCase_def)
  have q: "sample_toLowerCase ''BOT'' = map ascii_lower ''BOT''"
    by code_simp
  have l: "\<forall>idea \<in> set seven.
       sample_toLowerCase (title idea) = map ascii_lower (title idea) \<and>
       sample_toLowerCase (description idea) = map ascii_lower (description idea)"
    by code_simp
  note t = filteredIdeas_exact [where toLowerCase = sample_toLowerCase and collection = seven
      and f = ascii_lower]
  from t [of "''Web''" "''BOT''"] q l
  have c: "filteredIdeas sample_toLowerCase seven ''Web'' ''BOT'' =
     filter (\<lambda>idea. (''Web'' = ''All'' \<or> ''Web'' \<in> set (category idea)) \<and>
                    (contains_up_to ascii_lower (title idea) ''BOT'' \<or>
                     contains_up_to ascii_lower (description idea) ''BOT'')) seven"
    by blast
  from t [of "''Tools''" "''BOT''"] n
  have d: "filteredIdeas sample_toLowerCase seven ''Tools'' [] =
     filter (\<lambda>idea. ''Tools'' = ''All'' \<or> ''Tools'' \<in> set (category idea)) seven"
    by blast
  from a b c d n q show ?thesis by blast
qed

text \<open>
  C4 as stated fails: containment up to letter case is not what lower-casing both
  strings tests. The title of two letters, capital alpha and capital sigma, contains the
  query capital sigma as it is written; but the title lower-cases to small alpha and
  final sigma, the query to small sigma, and the idea is filtered out.
\<close>

theorem filteredIdeas_counterexample:
  "title greek_idea = capital_alpha @ capital_sigma \<and>
   sublist capital_sigma (title greek_idea) \<and>
   sample_toLowerCase (title greek_idea) = small_alpha @ final_sigma \<and>
   sample_toLowerCase capital_sigma = small_sigma \<and>
   filteredIdeas sample_toLowerCase [greek_idea] ''All'' capital_sigma = []"
proof -
  have "title greek_idea = capital_alpha @ capital_sigma"
    by (simp add: greek_idea_def sample_idea_def)
  moreover have "sublist capital_sigma (title greek_idea)"
    by code_simp
  moreover have "sample_toLowerCase (title greek_idea) = small_alpha @ final_sigma"
    by code_simp
  moreover have "sample_toLowerCase capital_sigma = small_sigma"
    by code_simp
  moreover have "filteredIdeas sample_toLowerCase [greek_idea] ''All'' capital_sigma = []"
    by code_simp
  ultimately show ?thesis by blast
qed

section \<open>The visible page\<close>


lemma startIndex_nonneg: "1 \<le> page \<Longrightarrow> 0 \<le> startIndex page"
  by (simp add: startIndex_def)

lemma currentPageIdeas_take_drop:
  assumes "1 \<le> page"
  shows "currentPageIdeas toLowerCase collection cat query page =
     take 6 (drop (6 * nat (page - 1)) (filteredIdeas toLowerCase collection cat query))"
proof -
  have n: "nat (startIndex page) = 6 * nat (page - 1)"
    using assms by (simp add: startIndex_def ITEMS_PER_PAGE_def nat_mult_distrib)
  have "slice (filteredIdeas toLowerCase collection cat query) (startIndex page) (startIndex page + int 6)
      = take 6 (drop (nat (startIndex page)) (filteredIdeas toLowerCase collection cat query))"
    using assms by (intro slice_take_drop startIndex_nonneg)
  then show ?thesis
    by (simp add: currentPageIdeas_def endIndex_def ITEMS_PER_PAGE_def n)
qed

lemma currentPageIdeas_sublist:
  "sublist (currentPageIdeas toLowerCase collection cat query page) (filteredIdeas toLowerCase collection cat query)"
  by (simp add: currentPageIdeas_def slice_sublist)

lemma currentPageIdeas_length: "length (currentPageIdeas toLowerCase collection cat query page) \<le> 6"
  using slice_length [of "filteredIdeas toLowerCase collection cat query" "startIndex page"]
  by (simp add: currentPageIdeas_def endIndex_def ITEMS_PER_PAGE_def)

lemma currentPageIdeas_empty:
  "filteredIdeas toLowerCase collection cat query = [] \<Longrightarrow> currentPageIdeas toLowerCase collection cat query page = []"
  by (simp add: currentPageIdeas_def slice_Nil)

text \<open>
  C5. The visible ideas are the slice of the filtered ideas from \<open>(currentPage - 1) * 6\<close>
  to \<open>currentPage * 6\<close>: a contiguous run of the filtered ideas, hence ideas of the loaded
  collection in their load order, all matching, at most six, and none when nothing
  matches.
\<close>

theorem currentPageIdeas_page:
  "(1 \<le> page \<longrightarrow>
      currentPageIdeas toLowerCase collection cat query page =
        take 6 (drop (6 * nat (page - 1)) (filteredIdeas toLowerCase collection cat query))) \<and>
   sublist (currentPageIdeas toLowerCase collection cat query page) (filteredIdeas toLowerCase collection cat query) \<and>
   subseq (currentPageIdeas toLowerCase collection cat query page) collection \<and>
   set (currentPageIdeas toLowerCase collection cat query page) \<subseteq> set collection \<and>
   length (currentPageIdeas toLowerCase collection cat query page) \<le> 6 \<and>
   (filteredIdeas toLowerCase collection cat query = [] \<longrightarrow>
      currentPageIdeas toLowerCase collection cat query page = []) \<and>
   (\<forall>idea \<in> set (currentPageIdeas toLowerCase collection cat query page). matches toLowerCase cat query idea)"
proof -
  let ?v = "currentPageIdeas toLowerCase collection cat query page"
  let ?f = "filteredIdeas toLowerCase collection cat query"
  have sl: "sublist ?v ?f" by (rule currentPageIdeas_sublist)
  then have sq: "subseq ?v ?f" by (rule sublist_imp_subseq)
  have "subseq ?f collection" by (simp add: filteredIdeas_def)
  with sq have ss: "subseq ?v collection" by (rule subseq_order.trans)
  from sl have st: "set ?v \<subseteq> set ?f" by (rule set_mono_sublist)
  have "set ?f \<subseteq> set collection" by (simp add: filteredIdeas_def)
  with st have sc: "set ?v \<subseteq> set collection" by blast
  have m: "\<forall>idea \<in> set ?v. matches toLowerCase cat query idea"
    using st by (auto simp: filteredIdeas_def)
  show ?thesis
    using sl ss sc m currentPageIdeas_length [of toLowerCase collection cat query page]
      currentPageIdeas_take_drop [of page toLowerCase collection cat query]
      currentPageIdeas_empty [of toLowerCase collection cat query page]
    by blast
qed

theorem currentPageIdeas_page_witness:
  "map idea_id (currentPageIdeas sample_toLowerCase seven ''All'' [] 2) = [''7''] \<and>
   map idea_id (take 6 (drop (6 * nat (2 - 1)) (filteredIdeas sample_toLowerCase seven ''All'' []))) = [''7''] \<and>
   matches sample_toLowerCase ''All'' [] (sample_idea ''7'' ''Summariser'' [''AI'']) \<and>
   map idea_id (currentPageIdeas sample_toLowerCase seven ''All'' [] 1) = [''1'', ''2'', ''3'', ''4'', ''5'', ''6''] \<and>
   currentPageIdeas sample_toLowerCase seven ''All'' ''robot'' 1 = []"
proof -
  have a: "map idea_id (currentPageIdeas sample_toLowerCase seven ''All'' [] 2) = [''7'']"
    by code_simp
  have b: "sample_idea ''7'' ''Summariser'' [''AI''] \<in> set (currentPageIdeas sample_toLowerCase seven ''All'' [] 2)"
    by code_simp
  have c: "map idea_id (currentPageIdeas sample_toLowerCase seven ''All'' [] 1) = [''1'', ''2'', ''3'', ''4'', ''5'', ''6'']"
    by code_simp
  have d: "filteredIdeas sample_toLowerCase seven ''All'' ''robot'' = []"
    by code_simp
  have e: "(1::int) \<le> 2" by simp
  from currentPageIdeas_page [of 2 sample_toLowerCase seven "''All''" "[]"] e
  have "currentPageIdeas sample_toLowerCase seven ''All'' [] 2 = take 6 (drop (6 * nat (2 - 1)) (filteredIdeas sample_toLowerCase seven ''All'' []))"
    by blast
  moreover from currentPageIdeas_page [of 2 sample_toLowerCase seven "''All''" "[]"] b
  have "matches sample_toLowerCase ''All'' [] (sample_idea ''7'' ''Summariser'' [''AI''])"
    by blast
  moreover from currentPageIdeas_page [of 1 sample_toLowerCase seven "''All''" "''robot''"] d
  have "currentPageIdeas sample_toLowerCase seven ''All'' ''robot'' 1 = []"
    by blast
  ultimately show ?thesis using a c by simp
qed

section \<open>The number of pages\<close>


lemma totalPages_div:
  "totalPages toLowerCase collection cat query = (int (length (filteredIdeas toLowerCase collection cat query)) + 5) div 6"
  by (simp add: totalPages_def ceil6)

lemma step_fetch_seven:
  "step sample_toLowerCase 0 (FetchSettled (Response True (Inr (Ideas seven)))) initial = Some loaded"
  by (simp add: step_def initial_def loaded_def fetchIdeas_def try_fetch_def pageResetEffect_def)

lemma reachable_loaded: "reachable sample_toLowerCase loaded"
  using reachable_initial step_fetch_seven by (rule reachable_step)


lemma step_robot: "step sample_toLowerCase 10 (SearchInput ''robot'') loaded = Some robot"
  by (simp add: step_def normalView_def storedIdeas_def errorShown_def loaded_def initial_def
      onSearchInputChange_def handleSearch_def pageResetEffect_def robot_def)

lemma reachable_robot: "reachable sample_toLowerCase robot"
  using reachable_loaded step_robot by (rule reachable_step)

text \<open>
  C2, as the code has it. The number of pages is the ceiling of the number of filtered
  ideas over the page size 6, with no lower bound of 1: it is \<open>max 1\<close> of that ceiling
  whenever an idea matches, and 0 when none does. With no match the visible ideas are
  empty and the page is 1.
\<close>

theorem totalPages_ceiling:
  "totalPages toLowerCase collection cat query =
     \<lceil>real (length (filteredIdeas toLowerCase collection cat query)) / 6\<rceil> \<and>
   int (length (filteredIdeas toLowerCase collection cat query)) \<le> 6 * totalPages toLowerCase collection cat query \<and>
   6 * (totalPages toLowerCase collection cat query - 1) < int (length (filteredIdeas toLowerCase collection cat query)) \<and>
   (filteredIdeas toLowerCase collection cat query \<noteq> [] \<longrightarrow>
      totalPages toLowerCase collection cat query =
        max 1 \<lceil>real (length (filteredIdeas toLowerCase collection cat query)) / 6\<rceil>) \<and>
   (filteredIdeas toLowerCase collection cat query = [] \<longrightarrow>
      totalPages toLowerCase collection cat query = 0 \<and>
      currentPageIdeas toLowerCase collection cat query page = []) \<and>
   (reachable toLowerCase s \<longrightarrow> ideas s = Ideas collection \<longrightarrow>
      filteredIdeas toLowerCase collection (activeCategory s) (searchQuery s) = [] \<longrightarrow> currentPage s = 1)"
proof -
  let ?n = "length (filteredIdeas toLowerCase collection cat query)"
  have c: "totalPages toLowerCase collection cat query = \<lceil>real ?n / 6\<rceil>"
    by (simp add: totalPages_def ITEMS_PER_PAGE_def)
  have d: "totalPages toLowerCase collection cat query = (int ?n + 5) div 6"
    by (rule totalPages_div)
  have pos: "filteredIdeas toLowerCase collection cat query \<noteq> [] \<longrightarrow> 1 \<le> totalPages toLowerCase collection cat query"
    unfolding d by (cases "filteredIdeas toLowerCase collection cat query") auto
  have z: "filteredIdeas toLowerCase collection cat query = [] \<longrightarrow> totalPages toLowerCase collection cat query = 0"
    unfolding d by simp
  have b1: "int ?n \<le> 6 * totalPages toLowerCase collection cat query"
    unfolding d by linarith
  have b2: "6 * (totalPages toLowerCase collection cat query - 1) < int ?n"
    unfolding d by presburger
  have page: "currentPage s = 1"
    if "reachable toLowerCase s" "ideas s = Ideas collection"
      "filteredIdeas toLowerCase collection (activeCategory s) (searchQuery s) = []"
  proof -
    from that(1) have "invariant toLowerCase s" by (rule reachable_invariant)
    with that(2) have "1 \<le> currentPage s"
      "currentPage s \<le> max 1 (totalPages toLowerCase collection (activeCategory s) (searchQuery s))"
      by (simp_all add: invariant_def)
    moreover have "totalPages toLowerCase collection (activeCategory s) (searchQuery s) = 0"
      using that(3) by (simp add: totalPages_div)
    ultimately show ?thesis by simp
  qed
  show ?thesis
    using c b1 b2 pos z page currentPageIdeas_empty [of toLowerCase collection cat query page]
    by (simp add: max_def) 
qed

theorem totalPages_ceiling_witness:
  "filteredIdeas sample_toLowerCase seven ''All'' ''robot'' = [] \<and>
   totalPages sample_toLowerCase seven ''All'' ''robot'' = 0 \<and>
   currentPageIdeas sample_toLowerCase seven ''All'' ''robot'' 1 = [] \<and>
   reachable sample_toLowerCase robot \<and> ideas robot = Ideas seven \<and> currentPage robot = 1 \<and>
   filteredIdeas sample_toLowerCase seven ''All'' [] \<noteq> [] \<and>
   totalPages sample_toLowerCase seven ''All'' [] = 2 \<and> totalPages sample_toLowerCase seven ''AI'' [] = 1"
proof -
  have e: "filteredIdeas sample_toLowerCase seven ''All'' ''robot'' = []" by code_simp
  have i: "ideas robot = Ideas seven" "activeCategory robot = ''All''" "searchQuery robot = ''robot''"
    by (simp_all add: robot_def loaded_def initial_def)
  have ne: "filteredIdeas sample_toLowerCase seven ''All'' [] \<noteq> []" by code_simp
  have l7: "length (filteredIdeas sample_toLowerCase seven ''All'' []) = 7" by code_simp
  have l5: "length (filteredIdeas sample_toLowerCase seven ''AI'' []) = 5" by code_simp
  from totalPages_ceiling [of sample_toLowerCase seven "''All''" "''robot''" 1 robot] e i reachable_robot
  have "totalPages sample_toLowerCase seven ''All'' ''robot'' = 0" "currentPageIdeas sample_toLowerCase seven ''All'' ''robot'' 1 = []"
    "currentPage robot = 1"
    by simp_all
  moreover from totalPages_ceiling [of sample_toLowerCase seven "''All''" "[]" 1 robot] l7
  have "totalPages sample_toLowerCase seven ''All'' [] = 2" by simp
  moreover from totalPages_ceiling [of sample_toLowerCase seven "''AI''" "[]" 1 robot] l5
  have "totalPages sample_toLowerCase seven ''AI'' [] = 1" by simp
  ultimately show ?thesis using e i reachable_robot ne by simp
qed

text \<open>
  C2 as stated fails: with seven ideas, none of which matches \<open>robot\<close>, the number of
  pages is 0 and not \<open>max 1 0 = 1\<close>.
\<close>

theorem totalPages_counterexample:
  "totalPages sample_toLowerCase seven ''All'' ''robot'' \<noteq>
     max 1 \<lceil>real (length (filteredIdeas sample_toLowerCase seven ''All'' ''robot'')) / real ITEMS_PER_PAGE\<rceil>"
proof -
  have "filteredIdeas sample_toLowerCase seven ''All'' ''robot'' = []" by code_simp
  then show ?thesis by (simp add: totalPages_def)
qed

section \<open>Reachable sample states\<close>



lemma normalView_loaded_page: "normalView (loaded\<lparr>currentPage := p\<rparr>) = Some seven"
  by (simp add: normalView_def storedIdeas_def errorShown_def loaded_def initial_def)





lemma step_rate_limited:
  "step sample_toLowerCase 0 (FetchSettled (Response False (Inr (Value Undefined (Str ''rate limited''))))) initial
     = Some rate_limited"
  by (simp add: step_def initial_def rate_limited_def fetchIdeas_def try_fetch_def
      failure_message_def js_or_def pageResetEffect_def)

lemma reachable_rate_limited: "reachable sample_toLowerCase rate_limited"
  using reachable_initial step_rate_limited by (rule reachable_step)

lemma step_AI: "step sample_toLowerCase 30 (CategoryClick ''AI'') page2 = Some page1_AI"
proof -
  have n: "normalView page2 = Some seven"
    unfolding page2_def by (rule normalView_loaded_page)
  have "''AI'' \<in> set (map name (categories seven))" by code_simp
  with n have "handler sample_toLowerCase 30 (CategoryClick ''AI'') page2 = Some (setActiveCategory ''AI'' page2)"
    by simp
  then show ?thesis
    by (simp add: step_def setActiveCategory_def pageResetEffect_def page2_def page1_AI_def
        loaded_def initial_def)
qed

section \<open>Before and after the load\<close>

lemma categories_Nil: "categories [] = [\<lparr>facet_id = ''all'', name = ''All'', count = 0\<rparr>]"
  by (simp add: categories_def array_from_set_def)

text \<open>
  C10. While the load is pending, and after it has failed, the stored collection is
  empty: the facet list is the single facet \<open>All\<close> with count 0, and the visible ideas
  are empty for every category, query and page.
\<close>

theorem empty_until_loaded:
  "reachable toLowerCase s \<Longrightarrow> loading s \<or> error s \<noteq> None \<Longrightarrow>
     ideas s = Ideas [] \<and>
     rendered_categories s = Some [\<lparr>facet_id = ''all'', name = ''All'', count = 0\<rparr>] \<and>
     rendered_currentPageIdeas toLowerCase
       (s\<lparr>activeCategory := cat, searchQuery := query, currentPage := page\<rparr>) = Some []"
proof -
  assume "reachable toLowerCase s" and l: "loading s \<or> error s \<noteq> None"
  then have "invariant toLowerCase s" by (simp add: reachable_invariant)
  with l have e: "ideas s = Ideas []" by (auto simp: invariant_def)
  have "currentPageIdeas toLowerCase [] cat query page = []"
    by (simp add: currentPageIdeas_empty filteredIdeas_def)
  with e show ?thesis
    by (simp add: rendered_categories_def rendered_currentPageIdeas_def storedIdeas_def
        categories_Nil)
qed

theorem empty_until_loaded_witness:
  "reachable sample_toLowerCase initial \<and> loading initial \<and>
   rendered_categories initial = Some [\<lparr>facet_id = ''all'', name = ''All'', count = 0\<rparr>] \<and>
   rendered_currentPageIdeas sample_toLowerCase
     (initial\<lparr>activeCategory := ''AI'', searchQuery := ''bot'', currentPage := 3\<rparr>) = Some [] \<and>
   reachable sample_toLowerCase rate_limited \<and> error rate_limited = Some ''rate limited'' \<and>
   rendered_categories rate_limited =
     Some [\<lparr>facet_id = ''all'', name = ''All'', count = 0\<rparr>] \<and>
   rendered_currentPageIdeas sample_toLowerCase
     (rate_limited\<lparr>activeCategory := ''AI'', searchQuery := ''bot'', currentPage := 3\<rparr>) = Some []"
proof -
  have l: "loading initial" by (simp add: initial_def)
  have e: "error rate_limited = Some ''rate limited''" by (simp add: rate_limited_def)
  from empty_until_loaded [where s = initial and cat = "''AI''" and query = "''bot''" and page = 3] reachable_initial l
  have a: "rendered_categories initial = Some [\<lparr>facet_id = ''all'', name = ''All'', count = 0\<rparr>] \<and>
   rendered_currentPageIdeas sample_toLowerCase
     (initial\<lparr>activeCategory := ''AI'', searchQuery := ''bot'', currentPage := 3\<rparr>) = Some []"
    by simp
  from empty_until_loaded [where s = rate_limited and cat = "''AI''" and query = "''bot''" and page = 3] reachable_rate_limited e
  have b: "rendered_categories rate_limited =
     Some [\<lparr>facet_id = ''all'', name = ''All'', count = 0\<rparr>] \<and>
   rendered_currentPageIdeas sample_toLowerCase
     (rate_limited\<lparr>activeCategory := ''AI'', searchQuery := ''bot'', currentPage := 3\<rparr>) = Some []"
    by simp
  from a b l e reachable_initial reachable_rate_limited show ?thesis by simp
qed

section \<open>The page\<close>

text \<open>
  After the effect: in every state the component settles in after an event, the page is
  at least 1 and at most \<open>max 1 totalPages\<close>, and every event that changes the active
  category or the search query leaves the page at 1.
\<close>

lemma settled_page_reset_and_bounds:
  "reachable toLowerCase s \<Longrightarrow>
     1 \<le> currentPage s \<and>
     (\<forall>xs. ideas s = Ideas xs \<longrightarrow>
        currentPage s \<le> max 1 (totalPages toLowerCase xs (activeCategory s) (searchQuery s))) \<and>
     (\<forall>now ev s'. step toLowerCase now ev s = Some s' \<longrightarrow>
        activeCategory s' \<noteq> activeCategory s \<or> searchQuery s' \<noteq> searchQuery s \<longrightarrow>
        currentPage s' = 1) \<and>
     (\<forall>now c s'. step toLowerCase now (CategoryClick c) s = Some s' \<longrightarrow> activeCategory s' = c) \<and>
     (\<forall>now q s'. step toLowerCase now (SearchInput q) s = Some s' \<longrightarrow> searchQuery s' = q)"
proof -
  assume "reachable toLowerCase s"
  then have "invariant toLowerCase s" by (rule reachable_invariant)
  then have b: "1 \<le> currentPage s"
    "\<forall>xs. ideas s = Ideas xs \<longrightarrow>
        currentPage s \<le> max 1 (totalPages toLowerCase xs (activeCategory s) (searchQuery s))"
    by (simp_all add: invariant_def)
  have r: "\<forall>now ev s'. step toLowerCase now ev s = Some s' \<longrightarrow>
        activeCategory s' \<noteq> activeCategory s \<or> searchQuery s' \<noteq> searchQuery s \<longrightarrow>
        currentPage s' = 1"
    using step_reset by blast
  have c: "\<forall>now c s'. step toLowerCase now (CategoryClick c) s = Some s' \<longrightarrow> activeCategory s' = c"
    by (auto simp: step_def setActiveCategory_def pageResetEffect_fields
        split: option.splits if_splits)
  have q: "\<forall>now q s'. step toLowerCase now (SearchInput q) s = Some s' \<longrightarrow> searchQuery s' = q"
    by (auto simp: step_def onSearchInputChange_def handleSearch_def pageResetEffect_fields
        split: option.splits if_splits)
  from b r c q show ?thesis by blast
qed

lemma handler_AI: "handler sample_toLowerCase 30 (CategoryClick ''AI'') page2 = Some stale"
proof -
  have n: "normalView page2 = Some seven"
    unfolding page2_def by (rule normalView_loaded_page)
  have "''AI'' \<in> set (map name (categories seven))" by code_simp
  with n show ?thesis
    by (simp add: setActiveCategory_def stale_def)
qed

lemma effect_AI: "pageResetEffect page2 stale = page1_AI"
  by (simp add: pageResetEffect_def stale_def page2_def page1_AI_def loaded_def initial_def)

text \<open>
  C7 holds of the settled states only. On page 2 of the seven ideas, a click on the facet
  \<open>AI\<close>, which has five ideas and so one page, makes React render two states. The first
  is the one the handler leaves: the active category is \<open>AI\<close>, the page is still 2, above
  the one page there is, and no idea is shown. Only then does the effect set the page
  to 1.
\<close>

theorem stale_page_render:
  "renders sample_toLowerCase 30 (CategoryClick ''AI'') page2 = [stale, page1_AI] \<and>
   activeCategory stale = ''AI'' \<and> currentPage stale = 2 \<and>
   totalPages sample_toLowerCase seven (activeCategory stale) (searchQuery stale) = 1 \<and>
   max 1 (totalPages sample_toLowerCase seven (activeCategory stale) (searchQuery stale))
     < currentPage stale \<and>
   render sample_toLowerCase stale = Shown [] \<and>
   currentPage page1_AI = 1"
proof -
  have f: "activeCategory stale = ''AI''" "currentPage stale = 2" "searchQuery stale = []"
    "currentPage page1_AI = 1"
    by (simp_all add: stale_def page2_def page1_AI_def loaded_def initial_def)
  have d: "stale \<noteq> page1_AI"
    by (simp add: stale_def page2_def page1_AI_def loaded_def initial_def)
  have r: "renders sample_toLowerCase 30 (CategoryClick ''AI'') page2 = [stale, page1_AI]"
    using d by (simp only: renders_def handler_AI option.case effect_AI) simp
  have t: "totalPages sample_toLowerCase seven ''AI'' [] = 1"
  proof -
    have "length (filteredIdeas sample_toLowerCase seven ''AI'' []) = 5" by code_simp
    then show ?thesis by (simp add: totalPages_div)
  qed
  have "currentPageIdeas sample_toLowerCase seven ''AI'' [] 2 = []"
    by code_simp
  then have v: "render sample_toLowerCase stale = Shown []"
    by (simp add: render_def storedIdeas_def stale_def page2_def loaded_def initial_def)
  from f r t v show ?thesis by simp
qed

section \<open>The pagination controls\<close>





section \<open>The debounced search\<close>


lemma keystroke_fields:
  "searchQuery (keystroke now q s) = q"
  "isSearching (keystroke now q s)"
  "timeoutId (keystroke now q s) = Some (now + 500, q)"
  "ideas (keystroke now q s) = ideas s"
  "activeCategory (keystroke now q s) = activeCategory s"
  "currentPage (keystroke now q s) = (if q \<noteq> searchQuery s then 1 else currentPage s)"
  by (simp_all add: keystroke_def onSearchInputChange_def handleSearch_def pageResetEffect_def)

lemma typing_snoc: "typing (ks @ [(now, q)]) s = keystroke now q (typing ks s)"
  by (induction ks arbitrary: s) auto

lemma typing_last:
  assumes "ks \<noteq> []"
  shows "searchQuery (typing ks s) = snd (last ks) \<and> isSearching (typing ks s) \<and>
     timeoutId (typing ks s) = Some (fst (last ks) + 500, snd (last ks))"
proof -
  from assms obtain ks' k where "ks = ks' @ [k]"
    by (metis rev_exhaust)
  then show ?thesis
    by (cases k) (simp add: typing_snoc keystroke_fields)
qed

lemma sorted_hd_le_last_prefix:
  assumes "sorted (map fst ks)" and "prefix p ks" and "p \<noteq> []"
  shows "fst (hd ks) \<le> fst (last p)"
proof -
  from assms(2) obtain r where ks: "ks = p @ r" by (auto simp: prefix_def)
  from assms(3) have "last p \<in> set ks" by (simp add: ks)
  moreover from assms(3) ks have "ks \<noteq> []" by simp
  ultimately show ?thesis
    using assms(1) by (cases ks) auto
qed

text \<open>
  C1, as the code has it. Every change of the search box sets \<open>searchQuery\<close> to the raw
  input at once (there is no separate pending query), sets the searching indicator,
  and replaces the pending timer by one due 500 ms later. For a burst of changes within
  a window of less than 500 ms, the debounced callback does not run during the burst;
  it runs once, 500 ms after the last change or later, sets \<open>searchQuery\<close> to the last
  input, which it already holds, and clears the indicator; after that no timer is
  pending.
\<close>

theorem debounce_burst:
  assumes "ks \<noteq> []" and "sorted (map fst ks)" and "fst (last ks) < fst (hd ks) + 500"
  shows "(\<forall>p. p \<noteq> [] \<and> prefix p ks \<longrightarrow>
            searchQuery (typing p s) = snd (last p) \<and> isSearching (typing p s) \<and>
            timeoutId (typing p s) = Some (fst (last p) + 500, snd (last p)) \<and>
            (\<forall>now. now \<le> fst (last ks) \<longrightarrow> step toLowerCase now TimerFired (typing p s) = None)) \<and>
         (\<forall>now. now < fst (last ks) + 500 \<longrightarrow> step toLowerCase now TimerFired (typing ks s) = None) \<and>
         (\<forall>now. fst (last ks) + 500 \<le> now \<longrightarrow>
            (\<exists>s'. step toLowerCase now TimerFired (typing ks s) = Some s' \<and>
               searchQuery s' = snd (last ks) \<and> \<not> isSearching s' \<and> timeoutId s' = None \<and>
               (\<forall>later. step toLowerCase later TimerFired s' = None)))"
proof (intro conjI allI impI)
  fix p
  assume p: "p \<noteq> [] \<and> prefix p ks"
  then have l: "searchQuery (typing p s) = snd (last p) \<and> isSearching (typing p s) \<and>
     timeoutId (typing p s) = Some (fst (last p) + 500, snd (last p))"
    by (simp add: typing_last)
  then show "searchQuery (typing p s) = snd (last p)" "isSearching (typing p s)"
    "timeoutId (typing p s) = Some (fst (last p) + 500, snd (last p))"
    by simp_all
  fix now
  assume "now \<le> fst (last ks)"
  moreover from assms(2) p have "fst (hd ks) \<le> fst (last p)"
    by (simp add: sorted_hd_le_last_prefix)
  ultimately have "now < fst (last p) + 500" using assms(3) by linarith
  with l show "step toLowerCase now TimerFired (typing p s) = None"
    by (simp add: step_def)
next
  fix now
  assume "now < fst (last ks) + 500"
  moreover from assms(1) have "timeoutId (typing ks s) = Some (fst (last ks) + 500, snd (last ks))"
    by (simp add: typing_last)
  ultimately show "step toLowerCase now TimerFired (typing ks s) = None"
    by (simp add: step_def)
next
  fix now
  assume n: "fst (last ks) + 500 \<le> now"
  let ?t = "typing ks s"
  from assms(1) have l: "timeoutId ?t = Some (fst (last ks) + 500, snd (last ks))"
    by (simp add: typing_last)
  let ?s' = "pageResetEffect ?t (debounced (snd (last ks)) ?t)"
  from l n have "step toLowerCase now TimerFired ?t = Some ?s'"
    by (simp add: step_def)
  moreover have "searchQuery ?s' = snd (last ks)" "\<not> isSearching ?s'" "timeoutId ?s' = None"
    by (simp_all add: pageResetEffect_fields debounced_def)
  moreover from this(3) have "\<forall>later. step toLowerCase later TimerFired ?s' = None"
    by (simp add: step_def)
  ultimately show "\<exists>s'. step toLowerCase now TimerFired ?t = Some s' \<and>
               searchQuery s' = snd (last ks) \<and> \<not> isSearching s' \<and> timeoutId s' = None \<and>
               (\<forall>later. step toLowerCase later TimerFired s' = None)"
    by blast
qed

theorem debounce_burst_witness:
  "[(0, ''r''), (100, ''ro''), (250, ''rob'')] \<noteq> [] \<and>
   sorted (map fst [(0::nat, ''r''), (100, ''ro''), (250, ''rob'')]) \<and>
   fst (last [(0::nat, ''r''), (100, ''ro''), (250, ''rob'')]) <
     fst (hd [(0::nat, ''r''), (100, ''ro''), (250, ''rob'')]) + 500 \<and>
   searchQuery (typing [(0, ''r''), (100, ''ro'')] loaded) = ''ro'' \<and>
   step sample_toLowerCase 250 TimerFired (typing [(0, ''r''), (100, ''ro'')] loaded) = None \<and>
   (\<exists>s'. step sample_toLowerCase 750 TimerFired (typing [(0, ''r''), (100, ''ro''), (250, ''rob'')] loaded) = Some s' \<and>
      searchQuery s' = ''rob'' \<and> \<not> isSearching s' \<and> timeoutId s' = None)"
proof -
  let ?ks = "[(0::nat, ''r''), (100, ''ro''), (250, ''rob'')]"
  have h: "?ks \<noteq> []" "sorted (map fst ?ks)" "fst (last ?ks) < fst (hd ?ks) + 500"
    by simp_all
  note b = debounce_burst [OF h, of loaded]
  have p: "[(0::nat, ''r''), (100, ''ro'')] \<noteq> [] \<and> prefix [(0::nat, ''r''), (100, ''ro'')] ?ks"
    by simp
  have n: "(250::nat) \<le> fst (last ?ks)" by simp
  from b p have "searchQuery (typing [(0, ''r''), (100, ''ro'')] loaded) = snd (last [(0::nat, ''r''), (100, ''ro'')])"
    by blast
  then have 1: "searchQuery (typing [(0, ''r''), (100, ''ro'')] loaded) = ''ro''" by simp
  from b p n have 2: "step sample_toLowerCase 250 TimerFired (typing [(0, ''r''), (100, ''ro'')] loaded) = None"
    by blast
  have m: "fst (last ?ks) + 500 \<le> (750::nat)" by simp
  from b m have "\<exists>s'. step sample_toLowerCase 750 TimerFired (typing ?ks loaded) = Some s' \<and>
      searchQuery s' = snd (last ?ks) \<and> \<not> isSearching s' \<and> timeoutId s' = None \<and>
      (\<forall>later. step sample_toLowerCase later TimerFired s' = None)"
    by blast
  then have 3: "\<exists>s'. step sample_toLowerCase 750 TimerFired (typing ?ks loaded) = Some s' \<and>
      searchQuery s' = ''rob'' \<and> \<not> isSearching s' \<and> timeoutId s' = None"
    by auto
  from h 1 2 3 show ?thesis by blast
qed

text \<open>
  C1 as stated fails: of two changes 100 ms apart, the first already sets \<open>searchQuery\<close>
  to its value \<open>r\<close>, while its timer is pending and cannot run before 500 ms.
\<close>

theorem debounce_counterexample:
  "searchQuery loaded = [] \<and>
   searchQuery (typing [(0, ''r'')] loaded) = ''r'' \<and>
   timeoutId (typing [(0, ''r'')] loaded) = Some (500, ''r'') \<and>
   step sample_toLowerCase 100 TimerFired (typing [(0, ''r'')] loaded) = None \<and>
   searchQuery (typing [(0, ''r''), (100, ''ro'')] loaded) = ''ro''"
  by (simp add: keystroke_fields step_def) (simp add: loaded_def initial_def)

section \<open>The load\<close>

lemma try_fetch_Value:
  "try_fetch (Response False (Inr (Value d e))) =
     Inl (error_message (js_or d (js_or e (Str ''Failed to fetch ideas''))))"
  by (simp add: try_fetch_def failure_message_def js_or_def)

lemma try_fetch_Ideas:
  "try_fetch (Response False (Inr (Ideas xs))) = Inl ''Failed to fetch ideas''"
  by (simp add: try_fetch_def failure_message_def js_or_def)

lemma try_fetch_thrown:
  "try_fetch (Rejected m) = Inl m"
  "try_fetch (Response ok (Inl m)) = Inl m"
  "try_fetch (Response False (Inr (Null m))) = Inl m"
  by (simp_all add: try_fetch_def failure_message_def)

lemma try_fetch_ok: "try_fetch (Response True (Inr d)) = Inr d"
  by (simp add: try_fetch_def)

lemma fetchIdeas_failed:
  "try_fetch out = Inl m \<Longrightarrow>
     error (fetchIdeas out s) = Some m \<and> ideas (fetchIdeas out s) = ideas s \<and>
     \<not> loading (fetchIdeas out s) \<and> (m \<noteq> [] \<longrightarrow> loadState (fetchIdeas out s) = Failed m)"
  by (simp add: fetchIdeas_Inl loadState_def)

lemma failing_iff: "failing out \<longleftrightarrow> (\<exists>m. try_fetch out = Inl m)"
proof (cases out)
  case (Rejected m)
  then show ?thesis by (simp add: try_fetch_thrown)
next
  case (Response ok body)
  show ?thesis
  proof (cases body)
    case (Inl m)
    with Response show ?thesis by (simp add: try_fetch_thrown)
  next
    case (Inr d)
    with Response show ?thesis
      by (cases ok) (auto simp: try_fetch_def split: sum.splits)
  qed
qed

text \<open>
  C8, as the code has it. For a response that is not ok and whose body parses to a value
  other than \<open>null\<close>, the error message is the body's \<open>details\<close> when that is truthy (a
  string: when not empty), else its \<open>error\<close> when that is truthy, else
  \<open>Failed to fetch ideas\<close>; a message that is not empty is shown as the failure. The body
  \<open>{error: rate limited}\<close> gives the failure \<open>rate limited\<close>. When the body does not
  parse, or is \<open>null\<close>, the message is that of the error raised while reading it. The
  stored ideas are untouched.
\<close>

theorem non_success_message:
  "error (fetchIdeas (Response False (Inr (Value d e))) s) =
     Some (if truthy d then error_message d
           else if truthy e then error_message e else ''Failed to fetch ideas'') \<and>
   ideas (fetchIdeas (Response False (Inr (Value d e))) s) = ideas s \<and>
   \<not> loading (fetchIdeas (Response False (Inr (Value d e))) s) \<and>
   (m \<noteq> [] \<longrightarrow> loadState (fetchIdeas (Response False (Inr (Value (Str m) e))) s) = Failed m) \<and>
   (\<not> truthy d \<and> m \<noteq> [] \<longrightarrow>
      loadState (fetchIdeas (Response False (Inr (Value d (Str m)))) s) = Failed m) \<and>
   (\<not> truthy d \<and> \<not> truthy e \<longrightarrow>
      loadState (fetchIdeas (Response False (Inr (Value d e))) s) =
        Failed ''Failed to fetch ideas'') \<and>
   loadState (fetchIdeas (Response False (Inr (Ideas xs))) s) = Failed ''Failed to fetch ideas'' \<and>
   loadState (fetchIdeas (Response False (Inr (Value Undefined (Str ''rate limited'')))) s) =
     Failed ''rate limited'' \<and>
   error (fetchIdeas (Response False (Inl t)) s) = Some t \<and>
   error (fetchIdeas (Response False (Inr (Null t))) s) = Some t"
proof -
  have g: "error (fetchIdeas (Response False (Inr (Value d e))) s) =
     Some (if truthy d then error_message d
           else if truthy e then error_message e else ''Failed to fetch ideas'')" for d e
    by (simp add: fetchIdeas_Inl [OF try_fetch_Value] js_or_def)
  have k: "ideas (fetchIdeas (Response False (Inr (Value d e))) s) = ideas s"
    "\<not> loading (fetchIdeas (Response False (Inr (Value d e))) s)"
    by (simp_all add: fetchIdeas_Inl [OF try_fetch_Value])
  have 1: "m \<noteq> [] \<longrightarrow> loadState (fetchIdeas (Response False (Inr (Value (Str m) e))) s) = Failed m"
    using g [of "Str m" e] by (simp add: loadState_def)
  have 2: "\<not> truthy d \<and> m \<noteq> [] \<longrightarrow>
      loadState (fetchIdeas (Response False (Inr (Value d (Str m)))) s) = Failed m"
    using g [of d "Str m"] by (simp add: loadState_def)
  have 3: "\<not> truthy d \<and> \<not> truthy e \<longrightarrow>
      loadState (fetchIdeas (Response False (Inr (Value d e))) s) =
        Failed ''Failed to fetch ideas''"
    using g [of d e] by (simp add: loadState_def)
  have 4: "loadState (fetchIdeas (Response False (Inr (Ideas xs))) s) = Failed ''Failed to fetch ideas''"
    by (simp add: fetchIdeas_Inl [OF try_fetch_Ideas] loadState_def)
  have 5: "loadState (fetchIdeas (Response False (Inr (Value Undefined (Str ''rate limited'')))) s) =
     Failed ''rate limited''"
    using g [of Undefined "Str ''rate limited''"] by (simp add: loadState_def)
  have 6: "error (fetchIdeas (Response False (Inl t)) s) = Some t"
    "error (fetchIdeas (Response False (Inr (Null t))) s) = Some t"
    by (simp_all add: fetchIdeas_Inl [OF try_fetch_thrown(2)] fetchIdeas_Inl [OF try_fetch_thrown(3)])
  from g [of d e] k 1 2 3 4 5 6 show ?thesis by blast
qed

theorem non_success_message_witness:
  "''quota'' \<noteq> [] \<and> \<not> truthy (Str []) \<and> \<not> truthy Undefined \<and>
   loadState (fetchIdeas (Response False (Inr (Value (Str ''quota'') (Str ''rate limited'')))) initial)
     = Failed ''quota'' \<and>
   loadState (fetchIdeas (Response False (Inr (Value (Str []) (Str ''quota'')))) initial)
     = Failed ''quota'' \<and>
   loadState (fetchIdeas (Response False (Inr (Value (Str []) Undefined))) initial)
     = Failed ''Failed to fetch ideas'' \<and>
   loadState (fetchIdeas (Response False (Inr (Value Undefined (Str ''rate limited'')))) initial)
     = Failed ''rate limited''"
proof -
  have h: "''quota'' \<noteq> []" "\<not> truthy (Str [])" "\<not> truthy Undefined" by simp_all
  from non_success_message [where d = "Str []" and e = "Str ''rate limited''" and m = "''quota''"
      and s = initial] h
  have "loadState (fetchIdeas (Response False (Inr (Value (Str ''quota'') (Str ''rate limited'')))) initial)
     = Failed ''quota''"
    "loadState (fetchIdeas (Response False (Inr (Value (Str []) (Str ''quota'')))) initial)
     = Failed ''quota''"
    "loadState (fetchIdeas (Response False (Inr (Value Undefined (Str ''rate limited'')))) initial)
     = Failed ''rate limited''"
    by blast+
  moreover from non_success_message [where d = "Str []" and e = Undefined and s = initial] h
  have "loadState (fetchIdeas (Response False (Inr (Value (Str []) Undefined))) initial)
     = Failed ''Failed to fetch ideas''"
    by blast
  ultimately show ?thesis using h by blast
qed

text \<open>
  C8 as stated fails: \<open>response.json()\<close> runs before the test of \<open>response.ok\<close>, so for
  a response that is not ok and whose body is not JSON the message is the parser's, which
  is neither a field of the body nor the generic message.
\<close>

theorem non_success_counterexample:
  "loadState (fetchIdeas (Response False (Inl ''Unexpected token < in JSON at position 0'')) initial)
     = Failed ''Unexpected token < in JSON at position 0'' \<and>
   Failed ''Unexpected token < in JSON at position 0'' \<noteq> Failed ''Failed to fetch ideas''"
  by (simp add: fetchIdeas_Inl [OF try_fetch_thrown(2)] loadState_def)

text \<open>
  The loads that end in the \<^verbatim>\<open>catch\<close> block set \<open>error\<close> to the message of the error,
  end loading and leave the stored ideas as they were: empty, since the load happens
  once, from the initial state. Any other load is an ok response with a parsed body,
  which \<^verbatim>\<open>setIdeas\<close> stores whole and as it is.
\<close>

lemma catch_block_keeps_ideas:
  "(failing out \<longrightarrow>
      (\<exists>m. error (fetchIdeas out s) = Some m \<and>
           (m \<noteq> [] \<longrightarrow> loadState (fetchIdeas out s) = Failed m)) \<and>
      ideas (fetchIdeas out s) = ideas s \<and> \<not> loading (fetchIdeas out s)) \<and>
   (\<not> failing out \<longrightarrow>
      (\<exists>d. out = Response True (Inr d) \<and> ideas (fetchIdeas out s) = d) \<and>
      error (fetchIdeas out s) = error s \<and> \<not> loading (fetchIdeas out s)) \<and>
   (reachable toLowerCase s \<longrightarrow> failing out \<longrightarrow>
      (\<forall>now s'. step toLowerCase now (FetchSettled out) s = Some s' \<longrightarrow> ideas s' = Ideas []))"
proof (intro conjI impI)
  assume "failing out"
  then obtain m where m: "try_fetch out = Inl m" by (auto simp: failing_iff)
  from fetchIdeas_failed [OF m, of s]
  show "\<exists>m. error (fetchIdeas out s) = Some m \<and>
           (m \<noteq> [] \<longrightarrow> loadState (fetchIdeas out s) = Failed m)"
    "ideas (fetchIdeas out s) = ideas s" "\<not> loading (fetchIdeas out s)"
    by blast+
next
  assume n: "\<not> failing out"
  then obtain d where d: "out = Response True (Inr d)"
    by (cases out rule: failing.cases) auto
  then show "\<exists>d. out = Response True (Inr d) \<and> ideas (fetchIdeas out s) = d"
    "error (fetchIdeas out s) = error s" "\<not> loading (fetchIdeas out s)"
    by (simp_all add: fetchIdeas_Inr [OF try_fetch_ok])
next
  assume r: "reachable toLowerCase s" and f: "failing out"
  from f obtain m where m: "try_fetch out = Inl m" by (auto simp: failing_iff)
  show "\<forall>now s'. step toLowerCase now (FetchSettled out) s = Some s' \<longrightarrow> ideas s' = Ideas []"
  proof (intro allI impI)
    fix now s'
    assume st: "step toLowerCase now (FetchSettled out) s = Some s'"
    then have l: "loading s" and s': "s' = pageResetEffect s (fetchIdeas out s)"
      by (auto simp: step_def split: if_splits)
    from r have "invariant toLowerCase s" by (rule reachable_invariant)
    with l have "ideas s = Ideas []" by (simp add: invariant_def)
    then show "ideas s' = Ideas []"
      by (simp add: s' pageResetEffect_fields fetchIdeas_Inl [OF m])
  qed
qed

text \<open>
  C9 fails in the code for a payload that parses but is not a list of ideas. An ok
  response whose body is the JSON object \<open>{}\<close> does not reach the \<^verbatim>\<open>catch\<close> block:
  \<^verbatim>\<open>setIdeas\<close> stores the object, no error is set and loading ends. The load is not
  failed, the stored ideas are not empty, and the next render fails at
  \<^verbatim>\<open>ideas.flatMap\<close>.
\<close>

theorem malformed_payload_stored:
  "step sample_toLowerCase 0 (FetchSettled (Response True (Inr (Value Undefined Undefined)))) initial
     = Some stored_object \<and>
   error stored_object = None \<and> loading stored_object = False \<and>
   ideas stored_object = Value Undefined Undefined \<and> ideas stored_object \<noteq> Ideas [] \<and>
   loadState stored_object \<noteq> Failed [] \<and>
   storedIdeas stored_object = None \<and>
   render sample_toLowerCase stored_object = Crash"
  by (simp add: step_def fetchIdeas_Inr [OF try_fetch_ok] pageResetEffect_def stored_object_def
      initial_def loadState_def storedIdeas_def render_def)

end
